theory Spec2Isabelle
  imports Main "HOL-Library.Sublist"
begin

section \<open>Portable paths\<close>

text \<open>
  A \<open>PortablePath\<close> is a POSIX path string. It is kept here as the list of its
  segments (the pieces between slashes) together with whether it starts at the root.
  Segments may still be \<open>.\<close>, \<open>..\<close> or empty: normalisation is a function of its own,
  as in Node's \<open>path.posix\<close>, which \<open>ppath\<close> delegates to.
\<close>

type_synonym Filename = string

datatype PortablePath =
    Absolute (segments: "Filename list")
  | Relative (segments: "Filename list")

text \<open>
  Node's \<open>normalizeString(path, allowAboveRoot)\<close>: empty and \<open>.\<close> segments are dropped,
  \<open>..\<close> removes the last segment kept so far unless there is none or it is \<open>..\<close> itself,
  in which case it is kept only when \<open>allowAboveRoot\<close>.
\<close>

definition normalizeStep :: "bool \<Rightarrow> Filename list \<Rightarrow> Filename \<Rightarrow> Filename list" where
  "normalizeStep allowAboveRoot res s =
     (if s = '''' \<or> s = ''.'' then res
      else if s = ''..'' then
        (if res \<noteq> [] \<and> last res \<noteq> ''..'' then butlast res
         else if allowAboveRoot then res @ [''..''] else res)
      else res @ [s])"

definition normalizeString :: "bool \<Rightarrow> Filename list \<Rightarrow> Filename list" where
  "normalizeString allowAboveRoot segs = foldl (normalizeStep allowAboveRoot) [] segs"

text \<open>A segment that normalisation keeps as it is: a name, not a step.\<close>

definition properName :: "Filename \<Rightarrow> bool" where
  "properName s = (s \<noteq> [] \<and> s \<noteq> ''.'' \<and> s \<noteq> ''..'')"

text \<open>
  The working directory of the process, which \<open>resolve\<close> consults only when none of its
  arguments is absolute. The installer only resolves against absolute paths; the
  process is taken to run at the root.
\<close>

definition processCwd :: "Filename list" where
  "processCwd = []"

definition ppath_resolve :: "PortablePath \<Rightarrow> PortablePath \<Rightarrow> PortablePath" where
  "ppath_resolve a b =
     (case b of
        Absolute sb \<Rightarrow> Absolute (normalizeString False sb)
      | Relative sb \<Rightarrow>
          (case a of
             Absolute sa \<Rightarrow> Absolute (normalizeString False (sa @ sb))
           | Relative sa \<Rightarrow> Absolute (normalizeString False (processCwd @ sa @ sb))))"

text \<open>\<open>join\<close> concatenates its arguments with a slash and normalises the result.\<close>

definition ppath_join :: "PortablePath \<Rightarrow> PortablePath \<Rightarrow> PortablePath" where
  "ppath_join a b =
     (case a of
        Absolute sa \<Rightarrow> Absolute (normalizeString False (sa @ segments b))
      | Relative sa \<Rightarrow> Relative (normalizeString True (sa @ segments b)))"

definition ppath_dirname :: "PortablePath \<Rightarrow> PortablePath" where
  "ppath_dirname p =
     (case p of
        Absolute s \<Rightarrow> Absolute (butlast s)
      | Relative s \<Rightarrow> Relative (butlast s))"

text \<open>
  \<open>relative(from, to)\<close> resolves both paths, drops their common leading segments, and
  climbs out of what is left of \<open>from\<close> before descending into what is left of \<open>to\<close>.
\<close>

fun relativeSegments :: "Filename list \<Rightarrow> Filename list \<Rightarrow> Filename list" where
  "relativeSegments (x # xs) (y # ys) =
     (if x = y then relativeSegments xs ys
      else replicate (length (x # xs)) ''..'' @ (y # ys))"
| "relativeSegments xs [] = replicate (length xs) ''..''"
| "relativeSegments [] ys = ys"

definition ppath_relative :: "PortablePath \<Rightarrow> PortablePath \<Rightarrow> PortablePath" where
  "ppath_relative from to =
     Relative (relativeSegments
       (segments (ppath_resolve (Absolute processCwd) from))
       (segments (ppath_resolve (Absolute processCwd) to)))"

text \<open>The path as the string that template literals and \<open>JSON.stringify\<close> see.\<close>

fun joinSegments :: "Filename list \<Rightarrow> string" where
  "joinSegments [] = ''''"
| "joinSegments [s] = s"
| "joinSegments (s # t) = s @ ''/'' @ joinSegments t"

definition toString :: "PortablePath \<Rightarrow> string" where
  "toString p =
     (case p of
        Absolute s \<Rightarrow> ''/'' @ joinSegments s
      | Relative s \<Rightarrow> joinSegments s)"

section \<open>Errors\<close>

datatype errno = ENOENT | EEXIST | ENOTDIR | EISDIR

datatype error =
    UsageError string
  | Error string
  | FsError errno

section \<open>The filesystem\<close>

text \<open>
  A filesystem maps the segments of a normalised absolute path to what is stored
  there. Symbolic links, modes and times are left out: no operation of the installer
  reads them. The operations are those of \<open>xfs\<close>, the filesystem library, which is
  not among the sources; each is modelled from what the spec says of it, and fails
  only for the shape of the tree (a missing source, a regular file in the way), not
  for permissions or space.
\<close>

datatype entry = File string | Directory

type_synonym FakeFS = "Filename list \<rightharpoonup> entry"

definition resolveFilename :: "PortablePath \<Rightarrow> Filename list" where
  "resolveFilename p = normalizeString False (segments p)"

definition isFile :: "entry option \<Rightarrow> bool" where
  "isFile e = (case e of Some (File c) \<Rightarrow> True | _ \<Rightarrow> False)"

definition existsSync :: "FakeFS \<Rightarrow> PortablePath \<Rightarrow> bool" where
  "existsSync fs p = (fs (resolveFilename p) \<noteq> None)"

text \<open>
  Modelled from the spec: \<open>xfs.mkdirPromise(p, {recursive: true})\<close> is not among the
  sources. The spec: ensure the directory exists (idempotent directory creation). So
  every missing directory on the way to \<open>p\<close>, and \<open>p\<close> itself, is created;
  directories already there are left alone; a regular file on the way is an error.
\<close>

definition mkdirPromise :: "FakeFS \<Rightarrow> PortablePath \<Rightarrow> error + FakeFS" where
  "mkdirPromise fs p =
     (let k = resolveFilename p in
      if list_ex (\<lambda>q. isFile (fs q)) (prefixes k)
      then Inl (FsError (if isFile (fs k) then EEXIST else ENOTDIR))
      else Inr (\<lambda>q. if prefix q k \<and> fs q = None then Some Directory else fs q))"

text \<open>
  Modelled from the spec: \<open>xfs.copyPromise(destination, source, {baseFs, overwrite: false})\<close>
  of the filesystem library is not among the sources. The spec: copy all content from
  the package's content filesystem at its prefix path into the vendor directory; the
  copy must not overwrite pre-existing files at the destination, and meeting one is
  not an error. So every entry of \<open>baseFs\<close> at or below \<open>source\<close> lands at the matching
  path below \<open>destination\<close>, except where \<open>fs\<close> already has an entry, or has a regular
  file where the copy would need a directory. A missing source is an error.
\<close>

definition copyBlocked :: "FakeFS \<Rightarrow> Filename list \<Rightarrow> Filename list \<Rightarrow> bool" where
  "copyBlocked fs d q = list_ex (\<lambda>q'. isFile (fs (d @ q'))) (butlast (prefixes q))"

definition copyPromise :: "FakeFS \<Rightarrow> PortablePath \<Rightarrow> FakeFS \<Rightarrow> PortablePath \<Rightarrow> error + FakeFS" where
  "copyPromise fs destination baseFs source =
     (let d = resolveFilename destination; s = resolveFilename source in
      case baseFs s of
        None \<Rightarrow> Inl (FsError ENOENT)
      | Some root \<Rightarrow>
          Inr (\<lambda>p. case fs p of
                 Some e \<Rightarrow> Some e
               | None \<Rightarrow>
                   if prefix d p \<and> \<not> copyBlocked fs d (drop (length d) p)
                   then baseFs (s @ drop (length d) p)
                   else None))"

text \<open>
  Modelled from the spec: \<open>xfs.removeSync(p, {recursive: true})\<close> is not among the
  sources. The spec: recursively remove the entire directory tree (if present) and
  return.
\<close>

definition removeSync :: "FakeFS \<Rightarrow> PortablePath \<Rightarrow> FakeFS" where
  "removeSync fs p = (let k = resolveFilename p in (\<lambda>q. if prefix k q then None else fs q))"

text \<open>
  Modelled from the spec: \<open>xfs.writeFilePromise(p, content)\<close> is not among the
  sources. The spec: the containing directory must exist before writing. So the
  call creates or replaces the regular file at \<open>p\<close>; the directory that holds it
  must exist, and \<open>p\<close> must not be a directory.
\<close>

definition writeFilePromise :: "FakeFS \<Rightarrow> PortablePath \<Rightarrow> string \<Rightarrow> error + FakeFS" where
  "writeFilePromise fs p content =
     (let k = resolveFilename p in
      if k = [] then Inl (FsError EISDIR)
      else
        (case fs (butlast k) of
           None \<Rightarrow> Inl (FsError ENOENT)
         | Some (File c) \<Rightarrow> Inl (FsError ENOTDIR)
         | Some Directory \<Rightarrow>
             (case fs k of
                Some Directory \<Rightarrow> Inl (FsError EISDIR)
              | _ \<Rightarrow> Inr (fs(k \<mapsto> File content)))))"

section \<open>Packages, the project and the host's helpers\<close>

datatype LinkType = HARD | SOFT

text \<open>
  A locator is known to the installer by its \<open>locatorHash\<close>, the package identity.
  Modelled from the spec: \<open>structUtils.isVirtualLocator\<close> is not among the sources;
  whether the package is a virtual instantiation is a fact carried by the locator.
\<close>

record Locator =
  locatorHash :: string
  isVirtualLocator :: bool

record Package = Locator +
  linkType :: LinkType

record Descriptor =
  descriptorHash :: string

text \<open>
  Modelled from the spec: \<open>Project.tryWorkspaceByLocator\<close> is not among the sources;
  workspace membership is a predicate of the project on the package identity. The
  configuration is its one relevant setting, \<open>dmLinker\<close>.
\<close>

record Project =
  cwd :: PortablePath
  workspaces :: "string list"
  dmLinker :: bool

definition tryWorkspaceByLocator :: "Project \<Rightarrow> 'a Locator_scheme \<Rightarrow> string option" where
  "tryWorkspaceByLocator project locator =
     (if locatorHash locator \<in> set (workspaces project) then Some (locatorHash locator) else None)"

record LinkOptions =
  project :: Project

text \<open>
  Modelled from the spec: the module \<open>./paths\<close> and \<open>structUtils.prettyLocator\<close> are
  not among the sources. The spec fixes the shape of the four locations and leaves
  the names open, so the names are parameters: the vendor directory's name, the
  project-relative paths of the two generated files, and the sanitiser of a package
  identity. \<open>prettyLocator\<close> is the host's printer of a locator.
\<close>

record Host =
  vendorDirname :: Filename
  pathmapFile :: PortablePath
  includeFile :: PortablePath
  sanitize :: "string \<Rightarrow> Filename"
  prettyLocator :: "Locator \<Rightarrow> string"

definition getVendorPath :: "Host \<Rightarrow> Project \<Rightarrow> PortablePath" where
  "getVendorPath X proj = ppath_join (cwd proj) (Relative [vendorDirname X])"

definition getVendoredPackagePath :: "Host \<Rightarrow> Project \<Rightarrow> 'a Locator_scheme \<Rightarrow> PortablePath" where
  "getVendoredPackagePath X proj locator =
     ppath_join (getVendorPath X proj) (Relative [sanitize X (locatorHash locator)])"

definition getPathmapPath :: "Host \<Rightarrow> Project \<Rightarrow> PortablePath" where
  "getPathmapPath X proj = ppath_join (cwd proj) (pathmapFile X)"

definition getIncludePath :: "Host \<Rightarrow> Project \<Rightarrow> PortablePath" where
  "getIncludePath X proj = ppath_join (cwd proj) (includeFile X)"

text \<open>
  The fetched content: a filesystem of its own (the \<open>baseFs\<close> of the copy), the path
  it is mounted from, and the prefix path of the package root inside it.
\<close>

record PackageFs =
  realPath :: PortablePath
  files :: FakeFS

definition getRealPath :: "PackageFs \<Rightarrow> PortablePath" where
  "getRealPath packageFs = realPath packageFs"

record FetchResult =
  packageFs :: PackageFs
  prefixPath :: PortablePath

section \<open>The installer\<close>

text \<open>
  The ledger is a JavaScript \<open>Map\<close>: \<open>set\<close> replaces the value of a key already there
  in place and appends a new key at the end; iteration follows that order. The
  dependency set is a JavaScript \<open>Set\<close>: \<open>add\<close> appends unless already a member.
\<close>

fun Map_set :: "('k \<times> 'v) list \<Rightarrow> 'k \<Rightarrow> 'v \<Rightarrow> ('k \<times> 'v) list" where
  "Map_set [] k v = [(k, v)]"
| "Map_set ((k', v') # m) k v =
     (if k' = k then (k, v) # m else (k', v') # Map_set m k v)"

definition Map_get :: "('k \<times> 'v) list \<Rightarrow> 'k \<Rightarrow> 'v option" where
  "Map_get m k = map_of m k"

definition Set_add :: "'a list \<Rightarrow> 'a \<Rightarrow> 'a list" where
  "Set_add s x = (if x \<in> set s then s else s @ [x])"

record LedgerEntry =
  packageLocator :: Package
  packageLocation :: PortablePath
  packageDependencies :: "string list"

record DmInstaller =
  opts :: LinkOptions
  enabled :: bool
  dependencies :: "(string \<times> LedgerEntry) list"

definition new_DmInstaller :: "LinkOptions \<Rightarrow> DmInstaller" where
  "new_DmInstaller options =
     \<lparr>opts = options, enabled = dmLinker (project options), dependencies = []\<rparr>"

text \<open>What \<open>installPackage\<close> returns: the final location and a null build directive.\<close>

datatype InstallPackageResult =
  InstallPackageResult (resultLocation: PortablePath) (buildDirective: "unit option")

definition dmLinkerMessage :: string where
  "dmLinkerMessage =
     ''Installing DM packages requires '' @ [CHR 0x22] @ ''dmLinker: true'' @ [CHR 0x22]
       @ '' in .yarnrc.yml''"

definition isHardLink :: "DmInstaller \<Rightarrow> Package \<Rightarrow> bool" where
  "isHardLink this pkg =
     (let isWorkspace = (tryWorkspaceByLocator (project (opts this)) pkg \<noteq> None)
      in linkType pkg = HARD \<and> \<not> isWorkspace)"

definition installPackage ::
  "Host \<Rightarrow> DmInstaller \<Rightarrow> FakeFS \<Rightarrow> Package \<Rightarrow> FetchResult
     \<Rightarrow> error + (InstallPackageResult \<times> DmInstaller \<times> FakeFS)" where
  "installPackage X this fs pkg fetchResult =
     (if \<not> enabled this then Inl (UsageError dmLinkerMessage)
      else
        let isVirtual = isVirtualLocator pkg;
            vendorLocation = getVendoredPackagePath X (project (opts this)) pkg;
            copied =
              (if isHardLink this pkg then
                 (case mkdirPromise fs vendorLocation of
                    Inl e \<Rightarrow> Inl e
                  | Inr fs1 \<Rightarrow>
                      copyPromise fs1 vendorLocation
                        (files (packageFs fetchResult)) (prefixPath fetchResult))
               else Inr fs)
        in case copied of
             Inl e \<Rightarrow> Inl e
           | Inr fs2 \<Rightarrow>
               let location =
                     (if isHardLink this pkg then vendorLocation
                      else ppath_resolve (getRealPath (packageFs fetchResult))
                             (prefixPath fetchResult))
               in Inr (InstallPackageResult location None,
                       this\<lparr>dependencies :=
                         Map_set (dependencies this) (locatorHash pkg)
                           \<lparr>packageLocator = pkg, packageLocation = location,
                            packageDependencies = []\<rparr>\<rparr>,
                       fs2))"

text \<open>
  \<open>attachInternalDependencies\<close>: the entry fetched from the ledger is the object the
  ledger holds, so adding to its dependency set changes the ledger's entry in place.
\<close>

definition attachInternalDependencies ::
  "Host \<Rightarrow> DmInstaller \<Rightarrow> Locator \<Rightarrow> (Descriptor \<times> Locator) list \<Rightarrow> error + DmInstaller" where
  "attachInternalDependencies X this locator deps =
     (case Map_get (dependencies this) (locatorHash locator) of
        None \<Rightarrow>
          Inl (Error (''Assertion failed: Expected locator to be registered (''
                 @ prettyLocator X locator @ '')''))
      | Some entry \<Rightarrow>
          Inr (this\<lparr>dependencies :=
                 Map_set (dependencies this) (locatorHash locator)
                   (entry\<lparr>packageDependencies :=
                      foldl (\<lambda>s (descriptor, dependency). Set_add s (locatorHash dependency))
                        (packageDependencies entry) deps\<rparr>)\<rparr>))"

definition attachExternalDependents ::
  "DmInstaller \<Rightarrow> Locator \<Rightarrow> PortablePath list \<Rightarrow> DmInstaller" where
  "attachExternalDependents this locator dependentPaths = this"

section \<open>The generated files\<close>

text \<open>
  \<open>JSON.stringify(data, null, 2)\<close> of an object whose values are strings. The keys are
  locator hashes, so the object lists them in the order they were assigned.
\<close>

definition hexDigit :: "nat \<Rightarrow> char" where
  "hexDigit n = ''0123456789abcdef'' ! (n mod 16)"

definition jsonEscape :: "char \<Rightarrow> string" where
  "jsonEscape c =
     (if c = CHR 0x22 then [CHR 0x5C, CHR 0x22]
      else if c = CHR 0x5C then [CHR 0x5C, CHR 0x5C]
      else if c = CHR 0x08 then [CHR 0x5C, CHR ''b'']
      else if c = CHR 0x09 then [CHR 0x5C, CHR ''t'']
      else if c = CHR 0x0A then [CHR 0x5C, CHR ''n'']
      else if c = CHR 0x0C then [CHR 0x5C, CHR ''f'']
      else if c = CHR 0x0D then [CHR 0x5C, CHR ''r'']
      else if (of_char c :: nat) < 32
        then [CHR 0x5C, CHR ''u'', CHR ''0'', CHR ''0'',
              hexDigit (of_char c div 16), hexDigit (of_char c)]
      else [c])"

definition jsonQuote :: "string \<Rightarrow> string" where
  "jsonQuote s = [CHR 0x22] @ concat (map jsonEscape s) @ [CHR 0x22]"

definition jsonMember :: "string \<times> PortablePath \<Rightarrow> string" where
  "jsonMember kv = ''  '' @ jsonQuote (fst kv) @ '': '' @ jsonQuote (toString (snd kv))"

fun jsonMembers :: "(string \<times> PortablePath) list \<Rightarrow> string" where
  "jsonMembers [] = []"
| "jsonMembers [kv] = jsonMember kv"
| "jsonMembers (kv # rest) = jsonMember kv @ '','' @ [CHR 0x0A] @ jsonMembers rest"

definition JSON_stringify :: "(string \<times> PortablePath) list \<Rightarrow> string" where
  "JSON_stringify data =
     (if data = [] then ''{}''
      else ''{'' @ [CHR 0x0A] @ jsonMembers data @ [CHR 0x0A] @ ''}'')"

text \<open>The object \<open>data\<close> that \<open>writePathMap\<close> fills, one assignment per ledger entry.\<close>

definition pathMapData :: "DmInstaller \<Rightarrow> (string \<times> PortablePath) list" where
  "pathMapData this =
     foldl (\<lambda>data (locatorStr, entry).
              Map_set data locatorStr
                (ppath_relative (cwd (project (opts this))) (packageLocation entry)))
       [] (dependencies this)"

definition writePathMap :: "Host \<Rightarrow> DmInstaller \<Rightarrow> FakeFS \<Rightarrow> error + FakeFS" where
  "writePathMap X this fs =
     (let data = pathMapData this;
          pathmapFile = getPathmapPath X (project (opts this))
      in writeFilePromise fs pathmapFile (JSON_stringify data @ [CHR 0x0A]))"

text \<open>
  \<open>writeIncludes\<close>, first loop: the relative paths of the include manifests that
  exist, in the order the ledger iterates.
\<close>

definition includeList :: "Host \<Rightarrow> DmInstaller \<Rightarrow> FakeFS \<Rightarrow> PortablePath list" where
  "includeList X this fs =
     (let includePath = getIncludePath X (project (opts this));
          includeDirName = ppath_dirname includePath
      in foldl (\<lambda>list (locatorStr, entry).
                  let packageIncludePath =
                        ppath_join (packageLocation entry) (Relative [''includes.dm''])
                  in if \<not> existsSync fs packageIncludePath then list
                     else list @ [ppath_relative includeDirName packageIncludePath])
           [] (dependencies this))"

text \<open>
  Second loop: the banner, then one directive per collected path. The statement
  that follows the loop in the source compares \<open>content\<close> with a newline and drops
  the result, so nothing is appended after the last directive.
\<close>

definition banner :: string where
  "banner =
     ''/*!'' @ [CHR 0x0A]
     @ '' * This file is auto generated by DM installer (do not edit).'' @ [CHR 0x0A]
     @ '' */'' @ [CHR 0x0A]
     @ [CHR 0x0A]"

definition includeLine :: "PortablePath \<Rightarrow> string" where
  "includeLine path = ''#include '' @ [CHR 0x22] @ toString path @ [CHR 0x22] @ [CHR 0x0A]"

definition includesContent :: "PortablePath list \<Rightarrow> string" where
  "includesContent list = foldl (\<lambda>content path. content @ includeLine path) banner list"

definition writeIncludes :: "Host \<Rightarrow> DmInstaller \<Rightarrow> FakeFS \<Rightarrow> error + FakeFS" where
  "writeIncludes X this fs =
     (let includePath = getIncludePath X (project (opts this));
          includeDirName = ppath_dirname includePath;
          content = includesContent (includeList X this fs)
      in case mkdirPromise fs includeDirName of
           Inl e \<Rightarrow> Inl e
         | Inr fs1 \<Rightarrow> writeFilePromise fs1 includePath content)"

text \<open>\<open>FinalizeInstallData\<close> is an object; \<open>finalizeInstall\<close> returns it without properties.\<close>

datatype FinalizeInstallData = FinalizeInstallData "(string \<times> string) list"

definition finalizeInstall ::
  "Host \<Rightarrow> DmInstaller \<Rightarrow> FakeFS \<Rightarrow> error + (FinalizeInstallData \<times> FakeFS)" where
  "finalizeInstall X this fs =
     (if \<not> enabled this
      then Inr (FinalizeInstallData [], removeSync fs (getVendorPath X (project (opts this))))
      else
        (case writeIncludes X this fs of
           Inl e \<Rightarrow> Inl e
         | Inr fs1 \<Rightarrow>
             (case writePathMap X this fs1 of
                Inl e \<Rightarrow> Inl e
              | Inr fs2 \<Rightarrow> Inr (FinalizeInstallData [], fs2))))"

section \<open>A run of the host\<close>

text \<open>
  The host calls the installer's operations one after another on the installer it
  constructed; a call that throws ends the run.
\<close>

datatype call =
    InstallPackage Package FetchResult
  | AttachInternalDependencies Locator "(Descriptor \<times> Locator) list"
  | AttachExternalDependents Locator "PortablePath list"

fun perform :: "Host \<Rightarrow> DmInstaller \<times> FakeFS \<Rightarrow> call \<Rightarrow> error + (DmInstaller \<times> FakeFS)" where
  "perform X (this, fs) (InstallPackage pkg fetchResult) =
     (case installPackage X this fs pkg fetchResult of
        Inl e \<Rightarrow> Inl e
      | Inr (r, this', fs') \<Rightarrow> Inr (this', fs'))"
| "perform X (this, fs) (AttachInternalDependencies locator deps) =
     (case attachInternalDependencies X this locator deps of
        Inl e \<Rightarrow> Inl e
      | Inr this' \<Rightarrow> Inr (this', fs))"
| "perform X (this, fs) (AttachExternalDependents locator dependentPaths) =
     Inr (attachExternalDependents this locator dependentPaths, fs)"

fun run :: "Host \<Rightarrow> DmInstaller \<times> FakeFS \<Rightarrow> call list \<Rightarrow> error + (DmInstaller \<times> FakeFS)" where
  "run X st [] = Inr st"
| "run X st (c # cs) =
     (case perform X st c of
        Inl e \<Rightarrow> Inl e
      | Inr st' \<Rightarrow> run X st' cs)"

section \<open>What a placement leaves behind\<close>

text \<open>
  The ledger stores the package object it was given, and with it the locator's
  virtual status. \<open>outcome\<close> is the result of a placement with that one flag blanked
  in the stored locators: the returned location, every ledger entry (key, identity,
  link type, location, dependencies) and the filesystem.
\<close>

definition eraseVirtual :: "LedgerEntry \<Rightarrow> LedgerEntry" where
  "eraseVirtual entry =
     entry\<lparr>packageLocator := (packageLocator entry)\<lparr>isVirtualLocator := False\<rparr>\<rparr>"

definition outcome ::
  "error + (InstallPackageResult \<times> DmInstaller \<times> FakeFS)
     \<Rightarrow> error + (InstallPackageResult \<times> (string \<times> LedgerEntry) list \<times> FakeFS)" where
  "outcome res =
     (case res of
        Inl e \<Rightarrow> Inl e
      | Inr (r, this', fs') \<Rightarrow>
          Inr (r, map (\<lambda>(k, entry). (k, eraseVirtual entry)) (dependencies this'), fs'))"

text \<open>
  What every ledger built by placements satisfies when the project root is an
  absolute path: no key occurs twice, and every recorded location is an absolute
  path in normal form.
\<close>

definition normalLocation :: "string \<times> LedgerEntry \<Rightarrow> bool" where
  "normalLocation kv =
     (case packageLocation (snd kv) of
        Absolute s \<Rightarrow> list_all properName s
      | Relative s \<Rightarrow> False)"

definition ledgerInvariant :: "DmInstaller \<Rightarrow> bool" where
  "ledgerInvariant this =
     (distinct (map fst (dependencies this)) \<and> list_all normalLocation (dependencies this))"

section \<open>A concrete project\<close>

text \<open>
  The project of the spec's scenarios: root \<open>/proj\<close>, vendor directory \<open>.vendor\<close>, a
  hard-linked package \<open>pkgA\<close> shipping \<open>a.txt\<close> and \<open>includes.dm\<close>, and a workspace
  \<open>wsA\<close> living at \<open>/proj/wsA\<close>.
\<close>

definition exHost :: Host where
  "exHost =
     \<lparr>vendorDirname = ''.vendor'',
      pathmapFile = Relative [''.vendor'', ''pathmap.json''],
      includeFile = Relative [''includes.dme''],
      sanitize = (\<lambda>h. h),
      prettyLocator = (\<lambda>l. locatorHash l)\<rparr>"

definition exProject :: Project where
  "exProject = \<lparr>cwd = Absolute [''proj''], workspaces = [''wsA''], dmLinker = True\<rparr>"

definition exInstaller :: DmInstaller where
  "exInstaller = new_DmInstaller \<lparr>project = exProject\<rparr>"

definition exDisabled :: DmInstaller where
  "exDisabled = new_DmInstaller \<lparr>project = exProject\<lparr>dmLinker := False\<rparr>\<rparr>"

definition pkgA :: Package where
  "pkgA = \<lparr>locatorHash = ''pkgA'', isVirtualLocator = False, linkType = HARD\<rparr>"

definition fetchA :: FetchResult where
  "fetchA =
     \<lparr>packageFs =
        \<lparr>realPath = Absolute [''cache'', ''pkgA.zip''],
         files =
           [[] \<mapsto> Directory,
            [''node_modules''] \<mapsto> Directory,
            [''node_modules'', ''pkgA''] \<mapsto> Directory,
            [''node_modules'', ''pkgA'', ''a.txt''] \<mapsto> File ''orig'',
            [''node_modules'', ''pkgA'', ''includes.dm''] \<mapsto> File ''// pkgA'']\<rparr>,
      prefixPath = Relative [''node_modules'', ''pkgA'']\<rparr>"

definition wsA :: Package where
  "wsA = \<lparr>locatorHash = ''wsA'', isVirtualLocator = False, linkType = HARD\<rparr>"

definition fetchW :: FetchResult where
  "fetchW =
     \<lparr>packageFs =
        \<lparr>realPath = Absolute [''proj'', ''wsA''],
         files = [[] \<mapsto> Directory, [''w.dm''] \<mapsto> File ''// wsA'']\<rparr>,
      prefixPath = Relative [''.'']\<rparr>"

definition exFs :: FakeFS where
  "exFs =
     [[] \<mapsto> Directory,
      [''proj''] \<mapsto> Directory,
      [''proj'', ''wsA''] \<mapsto> Directory,
      [''proj'', ''wsA'', ''w.dm''] \<mapsto> File ''// wsA'']"

text \<open>The same project after someone edited the vendored copy of \<open>a.txt\<close> by hand.\<close>

definition editedFs :: FakeFS where
  "editedFs =
     exFs([''proj'', ''.vendor''] \<mapsto> Directory,
          [''proj'', ''.vendor'', ''pkgA''] \<mapsto> Directory,
          [''proj'', ''.vendor'', ''pkgA'', ''a.txt''] \<mapsto> File ''edited'')"

text \<open>
  The installer after \<open>pkgA\<close> was placed, and after the workspace was attached to it
  as a dependency.
\<close>

definition locA :: Locator where
  "locA = \<lparr>locatorHash = ''pkgA'', isVirtualLocator = False\<rparr>"

definition locW :: Locator where
  "locW = \<lparr>locatorHash = ''wsA'', isVirtualLocator = False\<rparr>"

definition descW :: Descriptor where
  "descW = \<lparr>descriptorHash = ''wsA@workspace''\<rparr>"

definition exPlaced :: DmInstaller where
  "exPlaced =
     exInstaller\<lparr>dependencies :=
       [(''pkgA'', \<lparr>packageLocator = pkgA,
                    packageLocation = Absolute [''proj'', ''.vendor'', ''pkgA''],
                    packageDependencies = []\<rparr>)]\<rparr>"

definition exAttached :: DmInstaller where
  "exAttached =
     exInstaller\<lparr>dependencies :=
       [(''pkgA'', \<lparr>packageLocator = pkgA,
                    packageLocation = Absolute [''proj'', ''.vendor'', ''pkgA''],
                    packageDependencies = [''wsA'']\<rparr>)]\<rparr>"

text \<open>
  The filesystem once \<open>pkgA\<close> is vendored, and the installer after \<open>pkgA\<close> and then
  \<open>wsA\<close> were placed.
\<close>

definition vendoredFs :: FakeFS where
  "vendoredFs =
     exFs([''proj'', ''.vendor''] \<mapsto> Directory,
          [''proj'', ''.vendor'', ''pkgA''] \<mapsto> Directory,
          [''proj'', ''.vendor'', ''pkgA'', ''a.txt''] \<mapsto> File ''orig'',
          [''proj'', ''.vendor'', ''pkgA'', ''includes.dm''] \<mapsto> File ''// pkgA'')"

definition exBoth :: DmInstaller where
  "exBoth =
     exInstaller\<lparr>dependencies :=
       [(''pkgA'', \<lparr>packageLocator = pkgA,
                    packageLocation = Absolute [''proj'', ''.vendor'', ''pkgA''],
                    packageDependencies = []\<rparr>),
        (''wsA'', \<lparr>packageLocator = wsA,
                   packageLocation = Absolute [''proj'', ''wsA''],
                   packageDependencies = []\<rparr>)]\<rparr>"

lemmas ex_defs =
  exHost_def exProject_def exInstaller_def exDisabled_def pkgA_def fetchA_def wsA_def
  fetchW_def exFs_def editedFs_def new_DmInstaller_def locA_def locW_def descW_def
  exPlaced_def exAttached_def vendoredFs_def exBoth_def

lemmas path_defs =
  normalizeString_def normalizeStep_def ppath_join_def ppath_resolve_def ppath_relative_def
  ppath_dirname_def processCwd_def resolveFilename_def getVendorPath_def
  getVendoredPackagePath_def getPathmapPath_def getIncludePath_def getRealPath_def

lemmas fs_defs =
  mkdirPromise_def copyPromise_def copyBlocked_def removeSync_def writeFilePromise_def
  existsSync_def isFile_def

section \<open>The feature flag\<close>

text \<open>
  C6. With the feature disabled, \<open>installPackage\<close> fails with the usage error whose
  message names the setting \<open>dmLinker: true\<close>; with the feature enabled it never fails
  with a usage error. The flag is the project's \<open>dmLinker\<close> setting, read when the
  installer is constructed.
\<close>

theorem installPackage_feature_flag:
  "enabled (new_DmInstaller options) = dmLinker (project options) \<and>
   (\<not> enabled this \<longrightarrow>
      installPackage X this fs pkg fetchResult =
        Inl (UsageError (''Installing DM packages requires '' @ [CHR 0x22]
          @ ''dmLinker: true'' @ [CHR 0x22] @ '' in .yarnrc.yml''))) \<and>
   (enabled this \<longrightarrow>
      (\<forall>msg. installPackage X this fs pkg fetchResult \<noteq> Inl (UsageError msg)))"
  by (auto simp: installPackage_def new_DmInstaller_def dmLinkerMessage_def Let_def
      mkdirPromise_def copyPromise_def split: sum.splits option.splits if_splits)

theorem installPackage_feature_flag_witness:
  "enabled (new_DmInstaller \<lparr>project = exProject\<rparr>) = dmLinker (project \<lparr>project = exProject\<rparr>) \<and>
   \<not> enabled exDisabled \<and>
   installPackage exHost exDisabled exFs pkgA fetchA =
     Inl (UsageError (''Installing DM packages requires '' @ [CHR 0x22]
       @ ''dmLinker: true'' @ [CHR 0x22] @ '' in .yarnrc.yml'')) \<and>
   enabled exInstaller \<and>
   (\<forall>msg. installPackage exHost exInstaller exFs pkgA fetchA \<noteq> Inl (UsageError msg))"
  using installPackage_feature_flag [of "\<lparr>project = exProject\<rparr>" exDisabled exHost exFs pkgA fetchA]
    installPackage_feature_flag [of "\<lparr>project = exProject\<rparr>" exInstaller exHost exFs pkgA fetchA]
  by (simp add: ex_defs)

section \<open>The ledger\<close>

lemma map_of_Map_set: "map_of (Map_set m k v) = (map_of m)(k \<mapsto> v)"
  by (induction m k v rule: Map_set.induct) (auto simp: fun_eq_iff)

lemma Map_get_Map_set: "Map_get (Map_set m k v) k' = (if k' = k then Some v else Map_get m k')"
  by (simp add: Map_get_def map_of_Map_set)

lemma keys_Map_set:
  "map fst (Map_set m k v) = (if k \<in> fst ` set m then map fst m else map fst m @ [k])"
  by (induction m k v rule: Map_set.induct) auto

lemma Map_set_same: "map_of m k = Some v \<Longrightarrow> Map_set m k v = m"
  by (induction m k v rule: Map_set.induct) (auto split: if_splits)

lemma distinct_Map_set: "distinct (map fst m) \<Longrightarrow> distinct (map fst (Map_set m k v))"
  by (simp add: keys_Map_set)

lemma map_Map_set:
  "map (\<lambda>(k, e). (k, f e)) (Map_set m k v) = Map_set (map (\<lambda>(k, e). (k, f e)) m) k (f v)"
  by (induction m k v rule: Map_set.induct) auto

lemma set_foldl_Set_add:
  "set (foldl (\<lambda>s (descriptor, dependency). Set_add s (locatorHash dependency)) s0 deps) =
     set s0 \<union> (\<lambda>dep. locatorHash (snd dep)) ` set deps"
  by (induction deps arbitrary: s0) (auto simp: Set_add_def)

lemma foldl_Set_add_absorb:
  "(\<lambda>dep. locatorHash (snd dep)) ` set deps \<subseteq> set s0 \<Longrightarrow>
     foldl (\<lambda>s (descriptor, dependency). Set_add s (locatorHash dependency)) s0 deps = s0"
  by (induction deps arbitrary: s0) (auto simp: Set_add_def)

lemma installPackage_state:
  assumes "installPackage X this fs pkg fetchResult = Inr (r, this', fs')"
  shows "this' = this\<lparr>dependencies :=
           Map_set (dependencies this) (locatorHash pkg)
             \<lparr>packageLocator = pkg, packageLocation = resultLocation r,
              packageDependencies = []\<rparr>\<rparr>"
    and "enabled this"
  using assms
  by (auto simp: installPackage_def Let_def split: if_splits sum.splits)

lemma installPackage_pkgA:
  "\<exists>r fs'. installPackage exHost exInstaller exFs pkgA fetchA = Inr (r, exPlaced, fs')"
  by (simp add: installPackage_def isHardLink_def tryWorkspaceByLocator_def Let_def
      ex_defs path_defs fs_defs)

section \<open>Referenced packages\<close>

text \<open>
  C3. A package whose link type is soft, or that is a workspace member, is not
  copied: \<open>installPackage\<close> leaves the whole filesystem as it was, the vendor tree
  included, and returns the content filesystem's real path resolved with the prefix
  path.
\<close>

theorem installPackage_reference:
  assumes "enabled this"
    and "linkType pkg = SOFT \<or> locatorHash pkg \<in> set (workspaces (project (opts this)))"
  shows "\<exists>this'. installPackage X this fs pkg fetchResult =
           Inr (InstallPackageResult
                  (ppath_resolve (getRealPath (packageFs fetchResult)) (prefixPath fetchResult))
                  None,
                this', fs)"
  using assms
  by (auto simp: installPackage_def isHardLink_def tryWorkspaceByLocator_def Let_def)

theorem installPackage_reference_witness:
  "enabled exInstaller \<and>
   locatorHash wsA \<in> set (workspaces (project (opts exInstaller))) \<and>
   (\<exists>this'. installPackage exHost exInstaller exFs wsA fetchW =
      Inr (InstallPackageResult (Absolute [''proj'', ''wsA'']) None, this', exFs)) \<and>
   linkType (pkgA\<lparr>linkType := SOFT\<rparr>) = SOFT \<and>
   (\<exists>this'. installPackage exHost exInstaller exFs (pkgA\<lparr>linkType := SOFT\<rparr>) fetchA =
      Inr (InstallPackageResult (Absolute [''cache'', ''pkgA.zip'', ''node_modules'', ''pkgA''])
             None, this', exFs))"
proof -
  have en: "enabled exInstaller"
    by (simp add: ex_defs)
  have ws: "linkType wsA = SOFT \<or> locatorHash wsA \<in> set (workspaces (project (opts exInstaller)))"
    by (simp add: ex_defs)
  have soft: "linkType (pkgA\<lparr>linkType := SOFT\<rparr>) = SOFT
      \<or> locatorHash (pkgA\<lparr>linkType := SOFT\<rparr>) \<in> set (workspaces (project (opts exInstaller)))"
    by simp
  show ?thesis
    using installPackage_reference [OF en ws, of exHost exFs fetchW]
      installPackage_reference [OF en soft, of exHost exFs fetchA]
    by (simp add: ex_defs path_defs)
qed

section \<open>Placing a package again\<close>

text \<open>
  C10. Whenever \<open>installPackage\<close> succeeds, the ledger entry of the package's identity
  is a fresh one with an empty dependency set, whatever the ledger held for that
  identity before; the other entries are untouched, and an identity already present
  keeps its place in the ledger's order. So dependencies attached before a second
  placement are gone after it.
\<close>

theorem installPackage_replaces_entry:
  assumes "installPackage X this fs pkg fetchResult = Inr (r, this', fs')"
  shows "Map_get (dependencies this') (locatorHash pkg) =
           Some \<lparr>packageLocator = pkg, packageLocation = resultLocation r,
                 packageDependencies = []\<rparr> \<and>
         (\<forall>k. k \<noteq> locatorHash pkg \<longrightarrow>
            Map_get (dependencies this') k = Map_get (dependencies this) k) \<and>
         (Map_get (dependencies this) (locatorHash pkg) \<noteq> None \<longrightarrow>
            map fst (dependencies this') = map fst (dependencies this))"
proof -
  have "Map_get (dependencies this) (locatorHash pkg) \<noteq> None \<Longrightarrow>
        locatorHash pkg \<in> fst ` set (dependencies this)"
    by (simp add: Map_get_def map_of_eq_None_iff)
  then show ?thesis
    unfolding installPackage_state(1) [OF assms]
    by (simp add: Map_get_Map_set keys_Map_set)
qed

theorem installPackage_replaces_entry_witness:
  "(\<exists>r fs'. installPackage exHost exInstaller exFs pkgA fetchA = Inr (r, exPlaced, fs')) \<and>
   attachInternalDependencies exHost exPlaced locA [(descW, locW)] = Inr exAttached \<and>
   Map_get (dependencies exAttached) ''pkgA'' =
     Some \<lparr>packageLocator = pkgA, packageLocation = Absolute [''proj'', ''.vendor'', ''pkgA''],
           packageDependencies = [''wsA'']\<rparr> \<and>
   (\<exists>r this' fs'.
      installPackage exHost exAttached exFs pkgA fetchA = Inr (r, this', fs') \<and>
      Map_get (dependencies this') ''pkgA'' =
        Some \<lparr>packageLocator = pkgA, packageLocation = Absolute [''proj'', ''.vendor'', ''pkgA''],
              packageDependencies = []\<rparr> \<and>
      map fst (dependencies this') = [''pkgA''])"
proof -
  have attach: "attachInternalDependencies exHost exPlaced locA [(descW, locW)] = Inr exAttached"
    by (simp add: attachInternalDependencies_def Map_get_def Set_add_def ex_defs)
  have before: "Map_get (dependencies exAttached) ''pkgA'' =
     Some \<lparr>packageLocator = pkgA, packageLocation = Absolute [''proj'', ''.vendor'', ''pkgA''],
           packageDependencies = [''wsA'']\<rparr>"
    by (simp add: Map_get_def ex_defs)
  have "\<exists>r this' fs'. installPackage exHost exAttached exFs pkgA fetchA = Inr (r, this', fs') \<and>
      resultLocation r = Absolute [''proj'', ''.vendor'', ''pkgA'']"
    by (simp add: installPackage_def isHardLink_def tryWorkspaceByLocator_def Let_def
        ex_defs path_defs fs_defs)
  then obtain r this' fs' where
    again: "installPackage exHost exAttached exFs pkgA fetchA = Inr (r, this', fs')" and
    loc: "resultLocation r = Absolute [''proj'', ''.vendor'', ''pkgA'']"
    by blast
  have "Map_get (dependencies this') ''pkgA'' =
        Some \<lparr>packageLocator = pkgA, packageLocation = Absolute [''proj'', ''.vendor'', ''pkgA''],
              packageDependencies = []\<rparr> \<and>
      map fst (dependencies this') = [''pkgA'']"
    using installPackage_replaces_entry [OF again] loc before
    by (simp add: ex_defs)
  with again have "\<exists>r this' fs'.
      installPackage exHost exAttached exFs pkgA fetchA = Inr (r, this', fs') \<and>
      Map_get (dependencies this') ''pkgA'' =
        Some \<lparr>packageLocator = pkgA, packageLocation = Absolute [''proj'', ''.vendor'', ''pkgA''],
              packageDependencies = []\<rparr> \<and>
      map fst (dependencies this') = [''pkgA'']"
    by (intro exI [of _ r] exI [of _ this'] exI [of _ fs'] conjI) simp_all
  with attach before installPackage_pkgA show ?thesis
    by (intro conjI)
qed

section \<open>Attaching dependencies\<close>

text \<open>
  C8. \<open>attachInternalDependencies\<close> fails if and only if the ledger has no entry for
  the locator's identity, and then with the assertion error that names the locator.
  With an entry, it succeeds: the entry's dependency set becomes its union with the
  given dependency identities, the rest of the entry and of the ledger stays, and
  the same call made again changes nothing.
\<close>

theorem attachInternalDependencies_registered:
  "((\<exists>e. attachInternalDependencies X this locator deps = Inl e) \<longleftrightarrow>
      Map_get (dependencies this) (locatorHash locator) = None) \<and>
   (\<forall>e. attachInternalDependencies X this locator deps = Inl e \<longrightarrow>
      e = Error (''Assertion failed: Expected locator to be registered (''
                 @ prettyLocator X locator @ '')'')) \<and>
   (\<forall>entry. Map_get (dependencies this) (locatorHash locator) = Some entry \<longrightarrow>
      (\<exists>this' deps'.
         attachInternalDependencies X this locator deps = Inr this' \<and>
         Map_get (dependencies this') (locatorHash locator) =
           Some (entry\<lparr>packageDependencies := deps'\<rparr>) \<and>
         set deps' =
           set (packageDependencies entry) \<union> (\<lambda>dep. locatorHash (snd dep)) ` set deps \<and>
         (\<forall>k. k \<noteq> locatorHash locator \<longrightarrow>
            Map_get (dependencies this') k = Map_get (dependencies this) k) \<and>
         map fst (dependencies this') = map fst (dependencies this) \<and>
         attachInternalDependencies X this' locator deps = Inr this'))"
proof -
  let ?k = "locatorHash locator"
  let ?add = "\<lambda>s (descriptor, dependency). Set_add s (locatorHash dependency)"
  have fails: "(\<exists>e. attachInternalDependencies X this locator deps = Inl e) \<longleftrightarrow>
      Map_get (dependencies this) ?k = None"
    by (auto simp: attachInternalDependencies_def split: option.splits)
  have msg: "\<forall>e. attachInternalDependencies X this locator deps = Inl e \<longrightarrow>
      e = Error (''Assertion failed: Expected locator to be registered (''
                 @ prettyLocator X locator @ '')'')"
    by (auto simp: attachInternalDependencies_def split: option.splits)
  have merges: "\<exists>this' deps'.
         attachInternalDependencies X this locator deps = Inr this' \<and>
         Map_get (dependencies this') ?k = Some (entry\<lparr>packageDependencies := deps'\<rparr>) \<and>
         set deps' =
           set (packageDependencies entry) \<union> (\<lambda>dep. locatorHash (snd dep)) ` set deps \<and>
         (\<forall>k. k \<noteq> ?k \<longrightarrow> Map_get (dependencies this') k = Map_get (dependencies this) k) \<and>
         map fst (dependencies this') = map fst (dependencies this) \<and>
         attachInternalDependencies X this' locator deps = Inr this'"
    if some: "Map_get (dependencies this) ?k = Some entry" for entry
  proof -
    define deps' where "deps' = foldl ?add (packageDependencies entry) deps"
    define this' where
      "this' = this\<lparr>dependencies :=
         Map_set (dependencies this) ?k (entry\<lparr>packageDependencies := deps'\<rparr>)\<rparr>"
    have first: "attachInternalDependencies X this locator deps = Inr this'"
      using some by (simp add: attachInternalDependencies_def this'_def deps'_def)
    have get: "Map_get (dependencies this') ?k = Some (entry\<lparr>packageDependencies := deps'\<rparr>)"
      by (simp add: this'_def Map_get_Map_set)
    have union: "set deps' =
        set (packageDependencies entry) \<union> (\<lambda>dep. locatorHash (snd dep)) ` set deps"
      by (simp add: deps'_def set_foldl_Set_add)
    have others: "\<forall>k. k \<noteq> ?k \<longrightarrow>
        Map_get (dependencies this') k = Map_get (dependencies this) k"
      by (simp add: this'_def Map_get_Map_set)
    have "?k \<in> fst ` set (dependencies this)"
      using some by (metis Map_get_def map_of_eq_None_iff option.distinct(1))
    then have keys: "map fst (dependencies this') = map fst (dependencies this)"
      by (simp add: this'_def keys_Map_set)
    have again: "foldl ?add deps' deps = deps'"
      by (rule foldl_Set_add_absorb) (simp add: union)
    have "Map_set (dependencies this') ?k (entry\<lparr>packageDependencies := deps'\<rparr>)
        = dependencies this'"
      using get by (simp add: Map_set_same Map_get_def)
    then have second: "attachInternalDependencies X this' locator deps = Inr this'"
      using get by (simp add: attachInternalDependencies_def again)
    from first get union others keys second show ?thesis by blast
  qed
  from fails msg merges show ?thesis by blast
qed

theorem attachInternalDependencies_registered_witness:
  "Map_get (dependencies exInstaller) (locatorHash locW) = None \<and>
   attachInternalDependencies exHost exInstaller locW [(descW, locW)] =
     Inl (Error ''Assertion failed: Expected locator to be registered (wsA)'') \<and>
   Map_get (dependencies exPlaced) (locatorHash locA) =
     Some \<lparr>packageLocator = pkgA, packageLocation = Absolute [''proj'', ''.vendor'', ''pkgA''],
           packageDependencies = []\<rparr> \<and>
   attachInternalDependencies exHost exPlaced locA [(descW, locW)] = Inr exAttached \<and>
   attachInternalDependencies exHost exAttached locA [(descW, locW)] = Inr exAttached \<and>
   Map_get (dependencies exAttached) (locatorHash locA) =
     Some \<lparr>packageLocator = pkgA, packageLocation = Absolute [''proj'', ''.vendor'', ''pkgA''],
           packageDependencies = [''wsA'']\<rparr>"
  using attachInternalDependencies_registered [of exHost exInstaller locW "[(descW, locW)]"]
    attachInternalDependencies_registered [of exHost exPlaced locA "[(descW, locW)]"]
  by (simp add: attachInternalDependencies_def Map_get_def Set_add_def ex_defs)

section \<open>Virtual locators\<close>

text \<open>
  C9. Changing nothing but the virtual status of the package changes nothing in what
  \<open>installPackage\<close> does: the error or the returned location, the decision to copy,
  the filesystem and every ledger entry are the same; only the locator object stored
  in the entry carries the status it was given.
\<close>

theorem installPackage_ignores_virtual:
  "outcome (installPackage X this fs (pkg\<lparr>isVirtualLocator := v\<rparr>) fetchResult) =
     outcome (installPackage X this fs pkg fetchResult) \<and>
   isHardLink this (pkg\<lparr>isVirtualLocator := v\<rparr>) = isHardLink this pkg"
  by (simp add: outcome_def installPackage_def isHardLink_def tryWorkspaceByLocator_def
      getVendoredPackagePath_def Let_def map_Map_set eraseVirtual_def
      split: sum.splits)

theorem installPackage_ignores_virtual_witness:
  "outcome (installPackage exHost exInstaller exFs (pkgA\<lparr>isVirtualLocator := True\<rparr>) fetchA) =
     outcome (installPackage exHost exInstaller exFs pkgA fetchA) \<and>
   isHardLink exInstaller (pkgA\<lparr>isVirtualLocator := True\<rparr>) \<and>
   isHardLink exInstaller pkgA"
  using installPackage_ignores_virtual
    [where X = exHost and this = exInstaller and fs = exFs and pkg = pkgA and v = True
       and fetchResult = fetchA]
  by (simp add: isHardLink_def tryWorkspaceByLocator_def ex_defs)

section \<open>Finalizing with the feature disabled\<close>

text \<open>
  C7. With the feature disabled, \<open>finalizeInstall\<close> returns the empty result and the
  filesystem without the vendor root and without anything below it; every other
  path holds what it held before, so neither generated file is written.
\<close>

theorem finalizeInstall_disabled:
  assumes "\<not> enabled this"
  shows "\<exists>fs'. finalizeInstall X this fs = Inr (FinalizeInstallData [], fs') \<and>
           \<not> existsSync fs' (getVendorPath X (project (opts this))) \<and>
           (\<forall>q. fs' q =
              (if prefix (resolveFilename (getVendorPath X (project (opts this)))) q
               then None else fs q))"
  using assms by (simp add: finalizeInstall_def removeSync_def existsSync_def)

theorem finalizeInstall_disabled_witness:
  "\<not> enabled exDisabled \<and>
   existsSync editedFs (getVendorPath exHost (project (opts exDisabled))) \<and>
   (\<exists>fs'. finalizeInstall exHost exDisabled editedFs = Inr (FinalizeInstallData [], fs') \<and>
      \<not> existsSync fs' (getVendorPath exHost (project (opts exDisabled))) \<and>
      fs' [''proj'', ''.vendor'', ''pkgA'', ''a.txt''] = None \<and>
      fs' [''proj'', ''.vendor'', ''pathmap.json''] = None \<and>
      fs' [''proj'', ''includes.dme''] = None \<and>
      fs' [''proj'', ''wsA'', ''w.dm''] = Some (File ''// wsA''))"
proof -
  have off: "\<not> enabled exDisabled"
    by (simp add: ex_defs)
  have there: "existsSync editedFs (getVendorPath exHost (project (opts exDisabled)))"
    by (simp add: existsSync_def ex_defs path_defs)
  from finalizeInstall_disabled [OF off, of exHost editedFs] obtain fs' where
    fin: "finalizeInstall exHost exDisabled editedFs = Inr (FinalizeInstallData [], fs')" and
    gone: "\<not> existsSync fs' (getVendorPath exHost (project (opts exDisabled)))" and
    rest: "\<And>q. fs' q =
       (if prefix (resolveFilename (getVendorPath exHost (project (opts exDisabled)))) q
        then None else editedFs q)"
    by blast
  have "fs' [''proj'', ''.vendor'', ''pkgA'', ''a.txt''] = None"
       "fs' [''proj'', ''.vendor'', ''pathmap.json''] = None"
       "fs' [''proj'', ''includes.dme''] = None"
       "fs' [''proj'', ''wsA'', ''w.dm''] = Some (File ''// wsA'')"
    by (simp_all add: rest ex_defs path_defs)
  with off there fin gone show ?thesis
    by (intro conjI exI [of _ fs']) simp_all
qed

section \<open>The filesystem operations\<close>

lemma mkdirPromise_result:
  assumes "mkdirPromise fs p = Inr fs0"
  shows "fs0 = (\<lambda>q. if prefix q (resolveFilename p) \<and> fs q = None then Some Directory else fs q)"
    and "\<And>q. prefix q (resolveFilename p) \<Longrightarrow> \<not> isFile (fs q)"
  using assms
  by (auto simp: mkdirPromise_def Let_def list_ex_iff in_set_prefixes split: if_splits)

lemma mkdirPromise_keeps:
  assumes "mkdirPromise fs p = Inr fs0" and "fs q = Some e"
  shows "fs0 q = Some e"
  unfolding mkdirPromise_result(1) [OF assms(1)] using assms(2) by simp


lemma mkdirPromise_made:
  assumes "mkdirPromise fs p = Inr fs0" and "prefix q (resolveFilename p)"
  shows "fs0 q = Some Directory"
proof (cases "fs q")
  case None
  with assms(2) show ?thesis unfolding mkdirPromise_result(1) [OF assms(1)] by simp
next
  case (Some e)
  with mkdirPromise_result(2) [OF assms] have "e = Directory"
    by (cases e) (simp_all add: isFile_def)
  with Some show ?thesis unfolding mkdirPromise_result(1) [OF assms(1)] by simp
qed

lemma mkdirPromise_again:
  assumes made: "mkdirPromise fs p = Inr fs0"
    and grows: "\<And>q e. fs0 q = Some e \<Longrightarrow> fs1 q = Some e"
  shows "mkdirPromise fs1 p = Inr fs1"
proof -
  have dir: "fs1 q = Some Directory" if "prefix q (resolveFilename p)" for q
    using mkdirPromise_made [OF made that] grows by simp
  then have "\<not> list_ex (\<lambda>q. isFile (fs1 q)) (prefixes (resolveFilename p))"
    by (auto simp: list_ex_iff in_set_prefixes isFile_def)
  moreover have "(\<lambda>q. if prefix q (resolveFilename p) \<and> fs1 q = None then Some Directory else fs1 q)
      = fs1"
    using dir by (auto simp: fun_eq_iff)
  ultimately show ?thesis
    by (simp add: mkdirPromise_def Let_def)
qed

lemma copyPromise_result:
  assumes "copyPromise fs destination baseFs source = Inr fs1"
  shows "fs1 = (\<lambda>p. case fs p of
                  Some e \<Rightarrow> Some e
                | None \<Rightarrow>
                    if prefix (resolveFilename destination) p
                       \<and> \<not> copyBlocked fs (resolveFilename destination)
                             (drop (length (resolveFilename destination)) p)
                    then baseFs (resolveFilename source
                                  @ drop (length (resolveFilename destination)) p)
                    else None)"
    and "baseFs (resolveFilename source) \<noteq> None"
  using assms by (auto simp: copyPromise_def Let_def split: option.splits)

lemma copyPromise_keeps:
  assumes "copyPromise fs destination baseFs source = Inr fs1" and "fs q = Some e"
  shows "fs1 q = Some e"
  unfolding copyPromise_result(1) [OF assms(1)] using assms(2) by simp

lemma copyBlocked_mono:
  assumes "\<And>x. isFile (fs x) \<Longrightarrow> isFile (fs1 x)" and "copyBlocked fs d q"
  shows "copyBlocked fs1 d q"
  using assms by (auto simp: copyBlocked_def list_ex_iff)

lemma copyPromise_again:
  assumes first: "copyPromise fs destination baseFs source = Inr fs1"
  shows "copyPromise fs1 destination baseFs source = Inr fs1"
proof -
  let ?d = "resolveFilename destination"
  let ?s = "resolveFilename source"
  note fs1 = copyPromise_result(1) [OF first]
  have files: "isFile (fs1 x)" if "isFile (fs x)" for x
    using that by (auto simp: fs1 isFile_def split: option.splits)
  have "(case fs1 p of
           Some e \<Rightarrow> Some e
         | None \<Rightarrow>
             if prefix ?d p \<and> \<not> copyBlocked fs1 ?d (drop (length ?d) p)
             then baseFs (?s @ drop (length ?d) p) else None) = fs1 p" for p
  proof (cases "fs1 p")
    case (Some e)
    then show ?thesis by simp
  next
    case None
    then have absent: "fs p = None"
      by (auto simp: fs1 split: option.splits)
    show ?thesis
    proof (cases "prefix ?d p \<and> \<not> copyBlocked fs1 ?d (drop (length ?d) p)")
      case True
      then have "\<not> copyBlocked fs ?d (drop (length ?d) p)"
        using copyBlocked_mono [of fs fs1] files by blast
      with True None absent have "baseFs (?s @ drop (length ?d) p) = None"
        by (simp add: fs1)
      with True None show ?thesis by simp
    next
      case False
      with None show ?thesis by auto
    qed
  qed
  then have "(\<lambda>p. case fs1 p of
           Some e \<Rightarrow> Some e
         | None \<Rightarrow>
             if prefix ?d p \<and> \<not> copyBlocked fs1 ?d (drop (length ?d) p)
             then baseFs (?s @ drop (length ?d) p) else None) = fs1"
    by (simp add: fun_eq_iff)
  with copyPromise_result(2) [OF first] show ?thesis
    by (auto simp: copyPromise_def Let_def)
qed

lemma installPackage_hard:
  assumes "installPackage X this fs pkg fetchResult = Inr (r, this', fs')"
    and "isHardLink this pkg"
  shows "\<exists>fs0. mkdirPromise fs (getVendoredPackagePath X (project (opts this)) pkg) = Inr fs0 \<and>
           copyPromise fs0 (getVendoredPackagePath X (project (opts this)) pkg)
             (files (packageFs fetchResult)) (prefixPath fetchResult) = Inr fs'"
    and "r = InstallPackageResult (getVendoredPackagePath X (project (opts this)) pkg) None"
  using assms
  by (auto simp: installPackage_def Let_def split: if_splits sum.splits)

lemma installPackage_soft:
  assumes "installPackage X this fs pkg fetchResult = Inr (r, this', fs')"
    and "\<not> isHardLink this pkg"
  shows "fs' = fs"
    and "r = InstallPackageResult
               (ppath_resolve (getRealPath (packageFs fetchResult)) (prefixPath fetchResult)) None"
  using assms
  by (auto simp: installPackage_def Let_def split: if_splits sum.splits)

section \<open>Placing without overwriting\<close>

text \<open>
  C2. A successful \<open>installPackage\<close> leaves every entry that was on the filesystem
  as it was, whatever its content. Called again for the same package with the same
  content, on the filesystem the first call left, it succeeds and changes nothing.
\<close>

theorem installPackage_no_clobber:
  assumes "installPackage X this fs pkg fetchResult = Inr (r, this1, fs1)"
  shows "(\<forall>p e. fs p = Some e \<longrightarrow> fs1 p = Some e) \<and>
         (\<exists>this2. installPackage X this1 fs1 pkg fetchResult = Inr (r, this2, fs1))"
proof -
  let ?v = "getVendoredPackagePath X (project (opts this)) pkg"
  note st = installPackage_state [OF assms]
  have same: "isHardLink this1 pkg = isHardLink this pkg" "enabled this1" "opts this1 = opts this"
    using st by (simp_all add: isHardLink_def)
  show ?thesis
  proof (cases "isHardLink this pkg")
    case True
    from installPackage_hard [OF assms True] obtain fs0 where
      made: "mkdirPromise fs ?v = Inr fs0" and
      copied: "copyPromise fs0 ?v (files (packageFs fetchResult)) (prefixPath fetchResult) = Inr fs1" and
      loc: "r = InstallPackageResult ?v None"
      by blast
    have keeps: "\<forall>p e. fs p = Some e \<longrightarrow> fs1 p = Some e"
      using mkdirPromise_keeps [OF made] copyPromise_keeps [OF copied] by blast
    have "mkdirPromise fs1 ?v = Inr fs1"
      using mkdirPromise_again [OF made] copyPromise_keeps [OF copied] by blast
    moreover have "copyPromise fs1 ?v (files (packageFs fetchResult)) (prefixPath fetchResult)
        = Inr fs1"
      by (rule copyPromise_again [OF copied])
    ultimately have "\<exists>this2. installPackage X this1 fs1 pkg fetchResult = Inr (r, this2, fs1)"
      using same True loc by (simp add: installPackage_def Let_def)
    with keeps show ?thesis by blast
  next
    case False
    from installPackage_soft [OF assms False] same False show ?thesis
      by (simp add: installPackage_def Let_def)
  qed
qed

theorem installPackage_no_clobber_witness:
  "\<exists>r this1 fs1 this2.
     installPackage exHost exInstaller editedFs pkgA fetchA = Inr (r, this1, fs1) \<and>
     editedFs [''proj'', ''.vendor'', ''pkgA'', ''a.txt''] = Some (File ''edited'') \<and>
     fs1 [''proj'', ''.vendor'', ''pkgA'', ''a.txt''] = Some (File ''edited'') \<and>
     fs1 [''proj'', ''.vendor'', ''pkgA'', ''includes.dm''] = Some (File ''// pkgA'') \<and>
     installPackage exHost this1 fs1 pkgA fetchA = Inr (r, this2, fs1)"
proof -
  have "\<exists>r this1 fs1. installPackage exHost exInstaller editedFs pkgA fetchA = Inr (r, this1, fs1) \<and>
      fs1 [''proj'', ''.vendor'', ''pkgA'', ''includes.dm''] = Some (File ''// pkgA'')"
    by (simp add: installPackage_def isHardLink_def tryWorkspaceByLocator_def Let_def
        ex_defs path_defs fs_defs)
  then obtain r this1 fs1 where
    first: "installPackage exHost exInstaller editedFs pkgA fetchA = Inr (r, this1, fs1)" and
    new: "fs1 [''proj'', ''.vendor'', ''pkgA'', ''includes.dm''] = Some (File ''// pkgA'')"
    by blast
  have old: "editedFs [''proj'', ''.vendor'', ''pkgA'', ''a.txt''] = Some (File ''edited'')"
    by (simp add: ex_defs)
  from installPackage_no_clobber [OF first] old obtain this2 where
    "fs1 [''proj'', ''.vendor'', ''pkgA'', ''a.txt''] = Some (File ''edited'')" and
    "installPackage exHost this1 fs1 pkgA fetchA = Inr (r, this2, fs1)"
    by blast
  with first old new show ?thesis
    by (intro exI [of _ r] exI [of _ this1] exI [of _ fs1] exI [of _ this2] conjI)
qed

section \<open>Normalised paths\<close>

lemma normalizeStep_proper: "properName s \<Longrightarrow> normalizeStep b res s = res @ [s]"
  by (simp add: normalizeStep_def properName_def)

lemma foldl_normalizeStep_proper:
  "list_all properName xs \<Longrightarrow> foldl (normalizeStep b) acc xs = acc @ xs"
  by (induction xs arbitrary: acc) (simp_all add: normalizeStep_proper)

lemma normalizeStep_keeps_proper:
  "list_all properName acc \<Longrightarrow> list_all properName (normalizeStep False acc s)"
  by (auto simp: normalizeStep_def properName_def list_all_iff dest: in_set_butlastD)

lemma foldl_normalizeStep_keeps_proper:
  "list_all properName acc \<Longrightarrow> list_all properName (foldl (normalizeStep False) acc xs)"
  by (induction xs arbitrary: acc) (simp_all add: normalizeStep_keeps_proper)

lemma normalizeString_proper: "list_all properName (normalizeString False xs)"
  by (simp add: normalizeString_def foldl_normalizeStep_keeps_proper)

lemma normalizeString_id: "list_all properName xs \<Longrightarrow> normalizeString b xs = xs"
  by (simp add: normalizeString_def foldl_normalizeStep_proper)

lemma normalizeString_append:
  "normalizeString b (xs @ ys) = foldl (normalizeStep b) (normalizeString b xs) ys"
  by (simp add: normalizeString_def)


lemma climb_back:
  "list_all properName f \<Longrightarrow>
     foldl (normalizeStep b) (acc @ f) (replicate (length f) ''..'') = acc"
proof (induction f rule: rev_induct)
  case Nil
  then show ?case by simp
next
  case (snoc x f)
  then have "normalizeStep b (acc @ f @ [x]) ''..'' = acc @ f"
    by (simp add: normalizeStep_def properName_def butlast_append)
  with snoc show ?case
    by (simp add: replicate_app_Cons_same)
qed

lemma relativeSegments_back:
  "list_all properName f \<Longrightarrow> list_all properName t \<Longrightarrow>
     foldl (normalizeStep b) (pre @ f) (relativeSegments f t) = pre @ t"
proof (induction f t arbitrary: pre rule: relativeSegments.induct)
  case (1 x xs y ys)
  show ?case
  proof (cases "x = y")
    case True
    from "1.prems" have "list_all properName xs" "list_all properName ys"
      by simp_all
    with "1.IH" [OF True, of "pre @ [x]"]
    have "foldl (normalizeStep b) ((pre @ [x]) @ xs) (relativeSegments xs ys)
        = (pre @ [x]) @ ys"
      by blast
    with True show ?thesis by simp
  next
    case False
    have "foldl (normalizeStep b) (pre @ x # xs) (replicate (length (x # xs)) ''..'') = pre"
      using "1.prems"(1) by (rule climb_back)
    with False "1.prems"(2) show ?thesis
      by (simp only: relativeSegments.simps if_False foldl_append foldl_normalizeStep_proper)
  qed
next
  case (2 xs)
  then show ?case using climb_back [of xs b pre] by simp
next
  case (3 y ys)
  then show ?case using foldl_normalizeStep_proper [of "y # ys" b pre] by simp
qed

lemma resolve_relative:
  "ppath_resolve a (ppath_relative a b) = Absolute (normalizeString False (segments b))"
proof -
  let ?f = "normalizeString False (segments a)"
  let ?t = "normalizeString False (segments b)"
  have rel: "ppath_relative a b = Relative (relativeSegments ?f ?t)"
    by (cases a; cases b) (simp_all add: ppath_relative_def ppath_resolve_def processCwd_def)
  have "normalizeString False (segments a @ relativeSegments ?f ?t) = ?t"
    using relativeSegments_back [of ?f ?t False "[]"]
    by (simp add: normalizeString_append normalizeString_proper)
  then show ?thesis
    unfolding rel by (cases a) (simp_all add: ppath_resolve_def processCwd_def)
qed


section \<open>Copied packages\<close>





section \<open>The include file\<close>

lemma foldl_collect:
  "foldl (\<lambda>list x. if \<not> P x then list else list @ [f x]) acc xs = acc @ map f (filter P xs)"
  by (induction xs arbitrary: acc) simp_all

lemma foldl_append_each:
  "foldl (\<lambda>content x. content @ g x) acc xs = acc @ concat (map g xs)"
  by (induction xs arbitrary: acc) simp_all

lemma concat_map_filter:
  "concat (map g (map f (filter P xs))) = concat (map (\<lambda>x. if P x then g (f x) else []) xs)"
  by (induction xs) simp_all

lemma writeFilePromise_result:
  assumes "writeFilePromise fs p content = Inr fs'"
  shows "fs' = fs(resolveFilename p \<mapsto> File content)"
  using assms
  by (auto simp: writeFilePromise_def Let_def split: if_splits option.splits entry.splits)

text \<open>
  C5. When \<open>writeIncludes\<close> succeeds, the include file holds the four banner lines
  followed, for each ledger entry in the ledger's order, by nothing if no
  \<open>includes.dm\<close> exists at the entry's location, and otherwise by the one line
  \<open>#include "path"\<close> where \<open>path\<close> is the manifest's path relative to the include
  file's directory. That relative path, resolved against the directory, is the
  manifest's absolute path.
\<close>

theorem writeIncludes_content:
  assumes "writeIncludes X this fs = Inr fs'"
  shows "fs' (resolveFilename (getIncludePath X (project (opts this)))) =
           Some (File
             (''/*!'' @ [CHR 0x0A]
              @ '' * This file is auto generated by DM installer (do not edit).'' @ [CHR 0x0A]
              @ '' */'' @ [CHR 0x0A]
              @ [CHR 0x0A]
              @ concat (map (\<lambda>(locatorStr, entry).
                  if existsSync fs (ppath_join (packageLocation entry) (Relative [''includes.dm'']))
                  then ''#include '' @ [CHR 0x22]
                       @ toString (ppath_relative
                           (ppath_dirname (getIncludePath X (project (opts this))))
                           (ppath_join (packageLocation entry) (Relative [''includes.dm''])))
                       @ [CHR 0x22] @ [CHR 0x0A]
                  else [])
                (dependencies this)))) \<and>
         (\<forall>entry :: LedgerEntry.
            ppath_resolve (ppath_dirname (getIncludePath X (project (opts this))))
              (ppath_relative (ppath_dirname (getIncludePath X (project (opts this))))
                 (ppath_join (packageLocation entry) (Relative [''includes.dm'']))) =
            Absolute (resolveFilename
              (ppath_join (packageLocation entry) (Relative [''includes.dm'']))))"
proof -
  let ?inc = "getIncludePath X (project (opts this))"
  let ?manifest = "\<lambda>entry. ppath_join (packageLocation entry) (Relative [''includes.dm''])"
  let ?P = "\<lambda>x. existsSync fs (?manifest (snd x))"
  let ?f = "\<lambda>x. ppath_relative (ppath_dirname ?inc) (?manifest (snd x))"
  have list: "includeList X this fs = map ?f (filter ?P (dependencies this))"
    by (simp add: includeList_def Let_def case_prod_unfold foldl_collect)
  have "includesContent (includeList X this fs) =
      banner @ concat (map (\<lambda>x. if ?P x then includeLine (?f x) else []) (dependencies this))"
    unfolding list includesContent_def foldl_append_each concat_map_filter ..
  then have content: "includesContent (includeList X this fs) =
      banner @ concat (map (\<lambda>(locatorStr, entry).
                  if existsSync fs (?manifest entry)
                  then includeLine (ppath_relative (ppath_dirname ?inc) (?manifest entry))
                  else [])
                (dependencies this))"
    by (simp add: case_prod_unfold)
  from assms obtain fs1 where
    written: "writeFilePromise fs1 ?inc (includesContent (includeList X this fs)) = Inr fs'"
    by (auto simp: writeIncludes_def Let_def split: sum.splits)
  have "fs' (resolveFilename ?inc) = Some (File (includesContent (includeList X this fs)))"
    unfolding writeFilePromise_result [OF written] by simp
  then have holds: "fs' (resolveFilename ?inc) =
      Some (File (banner @ concat (map (\<lambda>(locatorStr, entry).
                  if existsSync fs (?manifest entry)
                  then includeLine (ppath_relative (ppath_dirname ?inc) (?manifest entry))
                  else [])
                (dependencies this))))"
    by (simp only: content)
  have resolves: "ppath_resolve (ppath_dirname ?inc)
        (ppath_relative (ppath_dirname ?inc) (?manifest entry)) =
      Absolute (resolveFilename (?manifest entry))" for entry :: LedgerEntry
    by (simp add: resolve_relative resolveFilename_def)
  from holds resolves show ?thesis
    unfolding banner_def includeLine_def by simp
qed

theorem writeIncludes_content_witness:
  "\<exists>fs'. writeIncludes exHost exBoth vendoredFs = Inr fs' \<and>
     existsSync vendoredFs (Absolute [''proj'', ''.vendor'', ''pkgA'', ''includes.dm'']) \<and>
     \<not> existsSync vendoredFs (Absolute [''proj'', ''wsA'', ''includes.dm'']) \<and>
     fs' [''proj'', ''includes.dme''] =
       Some (File
         (''/*!'' @ [CHR 0x0A]
          @ '' * This file is auto generated by DM installer (do not edit).'' @ [CHR 0x0A]
          @ '' */'' @ [CHR 0x0A]
          @ [CHR 0x0A]
          @ ''#include '' @ [CHR 0x22] @ ''.vendor/pkgA/includes.dm'' @ [CHR 0x22] @ [CHR 0x0A]))"
proof -
  have "\<exists>fs'. writeIncludes exHost exBoth vendoredFs = Inr fs'"
    by (simp add: writeIncludes_def includeList_def Let_def ex_defs path_defs fs_defs)
  then obtain fs' where ok: "writeIncludes exHost exBoth vendoredFs = Inr fs'"
    by blast
  have there: "existsSync vendoredFs (Absolute [''proj'', ''.vendor'', ''pkgA'', ''includes.dm''])"
    and absent: "\<not> existsSync vendoredFs (Absolute [''proj'', ''wsA'', ''includes.dm''])"
    by (simp_all add: ex_defs path_defs fs_defs)
  from writeIncludes_content [OF ok, THEN conjunct1]
  have "fs' [''proj'', ''includes.dme''] =
       Some (File
         (''/*!'' @ [CHR 0x0A]
          @ '' * This file is auto generated by DM installer (do not edit).'' @ [CHR 0x0A]
          @ '' */'' @ [CHR 0x0A]
          @ [CHR 0x0A]
          @ ''#include '' @ [CHR 0x22] @ ''.vendor/pkgA/includes.dm'' @ [CHR 0x22] @ [CHR 0x0A]))"
    by (simp add: ex_defs path_defs fs_defs toString_def)
  with ok there absent show ?thesis
    by (intro exI [of _ fs'] conjI)
qed

section \<open>The path map\<close>

lemma Map_set_fresh: "k \<notin> fst ` set m \<Longrightarrow> Map_set m k v = m @ [(k, v)]"
  by (induction m k v rule: Map_set.induct) auto

lemma keyset_Map_set: "fst ` set (Map_set m k v) = insert k (fst ` set m)"
  by (induction m k v rule: Map_set.induct) auto

lemma foldl_Map_set_distinct:
  "distinct (map fst xs) \<Longrightarrow> fst ` set acc \<inter> fst ` set xs = {} \<Longrightarrow>
     foldl (\<lambda>data x. Map_set data (fst x) (g (snd x))) acc xs
       = acc @ map (\<lambda>x. (fst x, g (snd x))) xs"
proof (induction xs arbitrary: acc)
  case Nil
  then show ?case by simp
next
  case (Cons x xs)
  from Cons.prems have fresh: "fst x \<notin> fst ` set acc"
    by auto
  from Cons.prems have "fst ` set (acc @ [(fst x, g (snd x))]) \<inter> fst ` set xs = {}"
    by (auto simp: image_iff)
  with Cons.IH [of "acc @ [(fst x, g (snd x))]"] Cons.prems(1) fresh show ?case
    by (simp add: Map_set_fresh)
qed

lemma pathMapData_map:
  assumes "distinct (map fst (dependencies this))"
  shows "pathMapData this =
           map (\<lambda>x. (fst x, ppath_relative (cwd (project (opts this))) (packageLocation (snd x))))
             (dependencies this)"
  using foldl_Map_set_distinct [OF assms, of "[]"
      "\<lambda>entry. ppath_relative (cwd (project (opts this))) (packageLocation entry)"]
  by (simp add: pathMapData_def case_prod_unfold)

lemma list_all_Map_set:
  "list_all P m \<Longrightarrow> P (k, v) \<Longrightarrow> list_all P (Map_set m k v)"
  by (induction m k v rule: Map_set.induct) auto

lemma installPackage_location_normal:
  assumes "installPackage X this fs pkg fetchResult = Inr (r, this', fs')"
    and "cwd (project (opts this)) = Absolute c"
  shows "\<exists>s. resultLocation r = Absolute s \<and> list_all properName s"
proof (cases "isHardLink this pkg")
  case True
  with installPackage_hard(2) [OF assms(1) True] assms(2) show ?thesis
    by (simp add: getVendoredPackagePath_def getVendorPath_def ppath_join_def
        normalizeString_proper)
next
  case False
  with installPackage_soft(2) [OF assms(1) False] show ?thesis
    by (simp add: ppath_resolve_def normalizeString_proper
        split: PortablePath.splits)
qed

lemma perform_invariant:
  assumes step: "perform X (this, fs) c = Inr (this', fs')"
    and root: "cwd (project (opts this)) = Absolute c0"
    and inv: "ledgerInvariant this"
  shows "ledgerInvariant this'" and "opts this' = opts this"
    and "fst ` set (dependencies this) \<subseteq> fst ` set (dependencies this')"
proof -
  have "ledgerInvariant this' \<and> opts this' = opts this \<and>
        fst ` set (dependencies this) \<subseteq> fst ` set (dependencies this')"
  proof (cases c)
    case (InstallPackage pkg fetchResult)
    with step obtain r where
      ok: "installPackage X this fs pkg fetchResult = Inr (r, this', fs')"
      by (auto split: sum.splits)
    from installPackage_location_normal [OF ok root] obtain s where
      "resultLocation r = Absolute s" "list_all properName s"
      by blast
    then have "normalLocation (locatorHash pkg,
        \<lparr>packageLocator = pkg, packageLocation = resultLocation r, packageDependencies = []\<rparr>)"
      by (simp add: normalLocation_def)
    with inv show ?thesis
      unfolding installPackage_state(1) [OF ok]
      by (auto simp: ledgerInvariant_def distinct_Map_set list_all_Map_set keyset_Map_set)
  next
    case (AttachInternalDependencies locator deps)
    with step have ok: "attachInternalDependencies X this locator deps = Inr this'" and "fs' = fs"
      by (auto split: sum.splits)
    then obtain entry deps' where
      some: "map_of (dependencies this) (locatorHash locator) = Some entry" and
      this': "this' = this\<lparr>dependencies :=
         Map_set (dependencies this) (locatorHash locator)
           (entry\<lparr>packageDependencies := deps'\<rparr>)\<rparr>"
      by (auto simp: attachInternalDependencies_def Map_get_def split: option.splits)
    from some have "(locatorHash locator, entry) \<in> set (dependencies this)"
      by (rule map_of_SomeD)
    with inv have "normalLocation (locatorHash locator, entry)"
      by (auto simp: ledgerInvariant_def list_all_iff)
    then have "normalLocation (locatorHash locator, entry\<lparr>packageDependencies := deps'\<rparr>)"
      by (simp add: normalLocation_def)
    with inv show ?thesis
      unfolding this'
      by (auto simp: ledgerInvariant_def distinct_Map_set list_all_Map_set keyset_Map_set)
  next
    case (AttachExternalDependents locator dependentPaths)
    with step inv show ?thesis
      by (simp add: attachExternalDependents_def)
  qed
  then show "ledgerInvariant this'" and "opts this' = opts this"
    and "fst ` set (dependencies this) \<subseteq> fst ` set (dependencies this')"
    by simp_all
qed

lemma perform_placed:
  assumes "perform X (this, fs) (InstallPackage pkg fetchResult) = Inr (this', fs')"
  shows "locatorHash pkg \<in> fst ` set (dependencies this')"
proof -
  from assms obtain r where
    ok: "installPackage X this fs pkg fetchResult = Inr (r, this', fs')"
    by (auto split: sum.splits)
  show ?thesis
    unfolding installPackage_state(1) [OF ok] by (simp add: keyset_Map_set)
qed

lemma run_invariant:
  assumes "run X (this, fs) calls = Inr (this', fs')"
    and "cwd (project (opts this)) = Absolute c0"
    and "ledgerInvariant this"
  shows "ledgerInvariant this' \<and> opts this' = opts this \<and>
         fst ` set (dependencies this) \<subseteq> fst ` set (dependencies this') \<and>
         (\<forall>pkg fetchResult. InstallPackage pkg fetchResult \<in> set calls \<longrightarrow>
            locatorHash pkg \<in> fst ` set (dependencies this'))"
  using assms
proof (induction calls arbitrary: this fs)
  case Nil
  then show ?case by simp
next
  case (Cons c calls)
  from Cons.prems(1) obtain this1 fs1 where
    step: "perform X (this, fs) c = Inr (this1, fs1)" and
    rest: "run X (this1, fs1) calls = Inr (this', fs')"
    by (auto split: sum.splits)
  note one = perform_invariant [OF step Cons.prems(2) Cons.prems(3)]
  from one(2) Cons.prems(2) have root1: "cwd (project (opts this1)) = Absolute c0"
    by simp
  note ih = Cons.IH [OF rest root1 one(1)]
  have "locatorHash pkg \<in> fst ` set (dependencies this')"
    if "c = InstallPackage pkg fetchResult" for pkg fetchResult
    using perform_placed [of X this fs pkg fetchResult this1 fs1] step that ih by blast
  moreover from ih one(3)
  have "fst ` set (dependencies this) \<subseteq> fst ` set (dependencies this')"
    by blast
  ultimately show ?case
    using ih one(2) by auto
qed

lemma perform_enabled:
  assumes "perform X (this, fs) c = Inr (this', fs')"
  shows "enabled this' = enabled this"
proof (cases c)
  case (InstallPackage pkg fetchResult)
  with assms obtain r where
    ok: "installPackage X this fs pkg fetchResult = Inr (r, this', fs')"
    by (auto split: sum.splits)
  show ?thesis
    unfolding installPackage_state(1) [OF ok] by simp
next
  case (AttachInternalDependencies locator deps)
  with assms show ?thesis
    by (auto simp: attachInternalDependencies_def split: sum.splits option.splits)
next
  case (AttachExternalDependents locator dependentPaths)
  with assms show ?thesis
    by (simp add: attachExternalDependents_def)
qed

lemma run_enabled:
  assumes "run X (this, fs) calls = Inr (this', fs')"
  shows "enabled this' = enabled this"
  using assms
proof (induction calls arbitrary: this fs)
  case Nil
  then show ?case by simp
next
  case (Cons c calls)
  from Cons.prems obtain this1 fs1 where
    step: "perform X (this, fs) c = Inr (this1, fs1)" and
    rest: "run X (this1, fs1) calls = Inr (this', fs')"
    by (auto split: sum.splits)
  from Cons.IH [OF rest] perform_enabled [OF step] show ?case
    by simp
qed

lemma finalizeInstall_pathmap:
  assumes "enabled this" and "finalizeInstall X this fs = Inr (d, fs')"
  shows "fs' (resolveFilename (getPathmapPath X (project (opts this)))) =
           Some (File (JSON_stringify (pathMapData this) @ [CHR 0x0A]))"
proof -
  from assms obtain fs1 where
    written: "writeFilePromise fs1 (getPathmapPath X (project (opts this)))
       (JSON_stringify (pathMapData this) @ [CHR 0x0A]) = Inr fs'"
    by (auto simp: finalizeInstall_def writePathMap_def Let_def split: sum.splits)
  show ?thesis
    unfolding writeFilePromise_result [OF written] by simp
qed

lemma new_DmInstaller_invariant: "ledgerInvariant (new_DmInstaller options)"
  by (simp add: ledgerInvariant_def new_DmInstaller_def)

text \<open>
  C4. Take a run of the host on a fresh installer, in a project whose root is an
  absolute path and where the feature is enabled, followed by a successful
  \<open>finalizeInstall\<close>. The path map file then holds the JSON text of \<open>data\<close> and a
  newline; \<open>data\<close> has the ledger's keys in the ledger's order; and for every
  package placed in the run, \<open>data\<close> maps its identity to a path which, resolved
  against the project root, is the location that the ledger records for it.
\<close>

theorem pathMap_round_trip:
  assumes "run X (new_DmInstaller options, fs0) calls = Inr (this, fs)"
    and "cwd (project options) = Absolute root"
    and "dmLinker (project options)"
    and "finalizeInstall X this fs = Inr (d, fs')"
  shows "fs' (resolveFilename (getPathmapPath X (project options))) =
           Some (File (JSON_stringify (pathMapData this) @ [CHR 0x0A])) \<and>
         map fst (pathMapData this) = map fst (dependencies this) \<and>
         (\<forall>pkg fetchResult. InstallPackage pkg fetchResult \<in> set calls \<longrightarrow>
            (\<exists>entry path.
               Map_get (dependencies this) (locatorHash pkg) = Some entry \<and>
               map_of (pathMapData this) (locatorHash pkg) = Some path \<and>
               ppath_resolve (cwd (project options)) path = packageLocation entry))"
proof -
  have root0: "cwd (project (opts (new_DmInstaller options))) = Absolute root"
    using assms(2) by (simp add: new_DmInstaller_def)
  note reach = run_invariant [OF assms(1) root0 new_DmInstaller_invariant]
  from reach have inv: "ledgerInvariant this" and
    opts: "opts this = opts (new_DmInstaller options)"
    by simp_all
  from opts have proj: "project (opts this) = project options"
    by (simp add: new_DmInstaller_def)
  have on: "enabled this"
    using run_enabled [OF assms(1)] assms(3) by (simp add: new_DmInstaller_def)
  from inv have dist: "distinct (map fst (dependencies this))"
    by (simp add: ledgerInvariant_def)
  note data = pathMapData_map [OF dist]
  have written: "fs' (resolveFilename (getPathmapPath X (project options))) =
           Some (File (JSON_stringify (pathMapData this) @ [CHR 0x0A]))"
    using finalizeInstall_pathmap [OF on assms(4)] by (simp add: proj)
  have keys: "map fst (pathMapData this) = map fst (dependencies this)"
    by (simp add: data comp_def)
  have entries: "\<exists>entry path.
               Map_get (dependencies this) (locatorHash pkg) = Some entry \<and>
               map_of (pathMapData this) (locatorHash pkg) = Some path \<and>
               ppath_resolve (cwd (project options)) path = packageLocation entry"
    if placed: "InstallPackage pkg fetchResult \<in> set calls" for pkg fetchResult
  proof -
    from reach placed have "locatorHash pkg \<in> fst ` set (dependencies this)"
      by blast
    then obtain entry where
      some: "map_of (dependencies this) (locatorHash pkg) = Some entry"
      by (metis domD dom_map_of_conv_image_fst)
    then have mem: "(locatorHash pkg, entry) \<in> set (dependencies this)"
      by (rule map_of_SomeD)
    with inv have "normalLocation (locatorHash pkg, entry)"
      by (auto simp: ledgerInvariant_def list_all_iff)
    then obtain s where loc: "packageLocation entry = Absolute s" and s: "list_all properName s"
      by (auto simp: normalLocation_def split: PortablePath.splits)
    let ?path = "ppath_relative (cwd (project options)) (packageLocation entry)"
    from mem have "(locatorHash pkg, ?path) \<in> set (pathMapData this)"
      unfolding data proj by (auto simp: image_iff intro!: bexI [of _ "(locatorHash pkg, entry)"])
    moreover from dist keys have "distinct (map fst (pathMapData this))"
      by simp
    ultimately have found: "map_of (pathMapData this) (locatorHash pkg) = Some ?path"
      by (rule map_of_is_SomeI [rotated])
    have "ppath_resolve (cwd (project options)) ?path = packageLocation entry"
      using s by (simp add: resolve_relative loc normalizeString_id)
    with some found show ?thesis
      by (simp add: Map_get_def)
  qed
  from written keys entries show ?thesis
    by blast
qed

theorem pathMap_round_trip_witness:
  "\<exists>fs d fs'.
     run exHost (new_DmInstaller \<lparr>project = exProject\<rparr>, exFs)
       [InstallPackage pkgA fetchA, InstallPackage wsA fetchW] = Inr (exBoth, fs) \<and>
     cwd (project \<lparr>project = exProject\<rparr>) = Absolute [''proj''] \<and>
     dmLinker (project \<lparr>project = exProject\<rparr>) \<and>
     finalizeInstall exHost exBoth fs = Inr (d, fs') \<and>
     fs' [''proj'', ''.vendor'', ''pathmap.json''] =
       Some (File
         (''{'' @ [CHR 0x0A]
          @ ''  '' @ [CHR 0x22] @ ''pkgA'' @ [CHR 0x22] @ '': ''
              @ [CHR 0x22] @ ''.vendor/pkgA'' @ [CHR 0x22] @ '','' @ [CHR 0x0A]
          @ ''  '' @ [CHR 0x22] @ ''wsA'' @ [CHR 0x22] @ '': ''
              @ [CHR 0x22] @ ''wsA'' @ [CHR 0x22] @ [CHR 0x0A]
          @ ''}'' @ [CHR 0x0A])) \<and>
     map fst (pathMapData exBoth) = [''pkgA'', ''wsA''] \<and>
     (\<exists>entry path.
        Map_get (dependencies exBoth) (locatorHash pkgA) = Some entry \<and>
        map_of (pathMapData exBoth) (locatorHash pkgA) = Some path \<and>
        path = Relative [''.vendor'', ''pkgA''] \<and>
        ppath_resolve (Absolute [''proj'']) path = packageLocation entry \<and>
        packageLocation entry = Absolute [''proj'', ''.vendor'', ''pkgA'']) \<and>
     (\<exists>entry path.
        Map_get (dependencies exBoth) (locatorHash wsA) = Some entry \<and>
        map_of (pathMapData exBoth) (locatorHash wsA) = Some path \<and>
        path = Relative [''wsA''] \<and>
        ppath_resolve (Absolute [''proj'']) path = packageLocation entry \<and>
        packageLocation entry = Absolute [''proj'', ''wsA''])"
proof -
  let ?calls = "[InstallPackage pkgA fetchA, InstallPackage wsA fetchW]"
  have "\<exists>fs d fs'.
      run exHost (new_DmInstaller \<lparr>project = exProject\<rparr>, exFs) ?calls = Inr (exBoth, fs) \<and>
      finalizeInstall exHost exBoth fs = Inr (d, fs')"
    by (simp add: installPackage_def isHardLink_def tryWorkspaceByLocator_def Let_def
        finalizeInstall_def writeIncludes_def writePathMap_def includeList_def
        ex_defs path_defs fs_defs)
  then obtain fs d fs' where
    ran: "run exHost (new_DmInstaller \<lparr>project = exProject\<rparr>, exFs) ?calls = Inr (exBoth, fs)" and
    fin: "finalizeInstall exHost exBoth fs = Inr (d, fs')"
    by blast
  have root: "cwd (project \<lparr>project = exProject\<rparr>) = Absolute [''proj'']"
    and on: "dmLinker (project \<lparr>project = exProject\<rparr>)"
    by (simp_all add: ex_defs)
  note claim = pathMap_round_trip [OF ran root on fin]
  have data: "pathMapData exBoth =
      [(''pkgA'', Relative [''.vendor'', ''pkgA'']), (''wsA'', Relative [''wsA''])]"
    by (simp add: pathMapData_def ex_defs path_defs)
  have json: "JSON_stringify (pathMapData exBoth) @ [CHR 0x0A] =
      ''{'' @ [CHR 0x0A]
          @ ''  '' @ [CHR 0x22] @ ''pkgA'' @ [CHR 0x22] @ '': ''
              @ [CHR 0x22] @ ''.vendor/pkgA'' @ [CHR 0x22] @ '','' @ [CHR 0x0A]
          @ ''  '' @ [CHR 0x22] @ ''wsA'' @ [CHR 0x22] @ '': ''
              @ [CHR 0x22] @ ''wsA'' @ [CHR 0x22] @ [CHR 0x0A]
          @ ''}'' @ [CHR 0x0A]"
    unfolding data
    by (simp add: JSON_stringify_def jsonMember_def jsonQuote_def jsonEscape_def toString_def)
  have key: "resolveFilename (getPathmapPath exHost (project \<lparr>project = exProject\<rparr>)) =
      [''proj'', ''.vendor'', ''pathmap.json'']"
    by (simp add: ex_defs path_defs)
  from claim have written: "fs' [''proj'', ''.vendor'', ''pathmap.json''] =
      Some (File (JSON_stringify (pathMapData exBoth) @ [CHR 0x0A]))"
    unfolding key by blast
  from claim have keys: "map fst (pathMapData exBoth) = [''pkgA'', ''wsA'']"
    by (simp add: ex_defs)
  from claim obtain entryA pathA where
    a: "Map_get (dependencies exBoth) (locatorHash pkgA) = Some entryA"
       "map_of (pathMapData exBoth) (locatorHash pkgA) = Some pathA"
       "ppath_resolve (cwd (project \<lparr>project = exProject\<rparr>)) pathA = packageLocation entryA"
    by (meson list.set_intros(1))
  from claim obtain entryW pathW where
    w: "Map_get (dependencies exBoth) (locatorHash wsA) = Some entryW"
       "map_of (pathMapData exBoth) (locatorHash wsA) = Some pathW"
       "ppath_resolve (cwd (project \<lparr>project = exProject\<rparr>)) pathW = packageLocation entryW"
    by (meson list.set_intros(1) list.set_intros(2))
  from a have a': "pathA = Relative [''.vendor'', ''pkgA'']"
      "packageLocation entryA = Absolute [''proj'', ''.vendor'', ''pkgA'']"
      "ppath_resolve (Absolute [''proj'']) pathA = packageLocation entryA"
    unfolding data root by (auto simp: Map_get_def ex_defs)
  from w have w': "pathW = Relative [''wsA'']"
      "packageLocation entryW = Absolute [''proj'', ''wsA'']"
      "ppath_resolve (Absolute [''proj'']) pathW = packageLocation entryW"
    unfolding data root by (auto simp: Map_get_def ex_defs)
  have "\<exists>entry path.
        Map_get (dependencies exBoth) (locatorHash pkgA) = Some entry \<and>
        map_of (pathMapData exBoth) (locatorHash pkgA) = Some path \<and>
        path = Relative [''.vendor'', ''pkgA''] \<and>
        ppath_resolve (Absolute [''proj'']) path = packageLocation entry \<and>
        packageLocation entry = Absolute [''proj'', ''.vendor'', ''pkgA'']"
    using a(1) a(2) a' by (intro exI [of _ entryA] exI [of _ pathA] conjI)
  moreover have "\<exists>entry path.
        Map_get (dependencies exBoth) (locatorHash wsA) = Some entry \<and>
        map_of (pathMapData exBoth) (locatorHash wsA) = Some path \<and>
        path = Relative [''wsA''] \<and>
        ppath_resolve (Absolute [''proj'']) path = packageLocation entry \<and>
        packageLocation entry = Absolute [''proj'', ''wsA'']"
    using w(1) w(2) w' by (intro exI [of _ entryW] exI [of _ pathW] conjI)
  ultimately show ?thesis
    using ran root on fin written [unfolded json] keys
    by (intro exI [of _ fs] exI [of _ d] exI [of _ fs'] conjI)
qed

end
